theory Spec2Isabelle
  imports Complex_Main "HOL-Library.AList"
begin

section \<open>Python values used by the selectors and the recogniser\<close>

text \<open>
  A Python float is modelled by its value: a real number, one of the two infinities, or
  NaN. Rounding is not modelled; the special values are, because the code compares
  against \<open>float('inf')\<close> and \<open>float('-inf')\<close> and because \<open>np.average\<close> of an empty
  list is NaN. Every comparison with NaN is false, as in IEEE 754.
\<close>

datatype pyfloat = Fin real | PInf | NInf | NaN

fun flt_lt :: "pyfloat \<Rightarrow> pyfloat \<Rightarrow> bool" where
  "flt_lt (Fin a) (Fin b) = (a < b)"
| "flt_lt (Fin a) PInf = True"
| "flt_lt NInf (Fin b) = True"
| "flt_lt NInf PInf = True"
| "flt_lt _ _ = False"

definition flt_gt :: "pyfloat \<Rightarrow> pyfloat \<Rightarrow> bool" where
  "flt_gt a b = flt_lt b a"

fun flt_neg :: "pyfloat \<Rightarrow> pyfloat" where
  "flt_neg (Fin a) = Fin (- a)"
| "flt_neg PInf = NInf"
| "flt_neg NInf = PInf"
| "flt_neg NaN = NaN"

fun flt_add :: "pyfloat \<Rightarrow> pyfloat \<Rightarrow> pyfloat" where
  "flt_add (Fin a) (Fin b) = Fin (a + b)"
| "flt_add NaN _ = NaN"
| "flt_add _ NaN = NaN"
| "flt_add PInf NInf = NaN"
| "flt_add NInf PInf = NaN"
| "flt_add PInf _ = PInf"
| "flt_add _ PInf = PInf"
| "flt_add NInf _ = NInf"
| "flt_add _ NInf = NInf"

definition flt_sub :: "pyfloat \<Rightarrow> pyfloat \<Rightarrow> pyfloat" where
  "flt_sub a b = flt_add a (flt_neg b)"

text \<open>The sign of a float that is not NaN: \<open>-1\<close>, \<open>0\<close> or \<open>1\<close>.\<close>

fun flt_sgn :: "pyfloat \<Rightarrow> int" where
  "flt_sgn (Fin a) = (if a < 0 then - 1 else if a = 0 then 0 else 1)"
| "flt_sgn PInf = 1"
| "flt_sgn NInf = - 1"
| "flt_sgn NaN = 0"

fun flt_mul :: "pyfloat \<Rightarrow> pyfloat \<Rightarrow> pyfloat" where
  "flt_mul (Fin a) (Fin b) = Fin (a * b)"
| "flt_mul NaN _ = NaN"
| "flt_mul _ NaN = NaN"
| "flt_mul a b =
     (if flt_sgn a * flt_sgn b = 0 then NaN
      else if flt_sgn a * flt_sgn b < 0 then NInf else PInf)"

text \<open>\<open>np.log\<close> of a row count: \<open>np.log(0)\<close> is \<open>-inf\<close> (with a warning, not an exception).\<close>

definition np_log :: "nat \<Rightarrow> pyfloat" where
  "np_log N = (if N = 0 then NInf else Fin (ln (real N)))"

text \<open>
  \<open>np.average\<close> of a list of scores: the arithmetic mean; of the empty list it is NaN
  (numpy warns and returns \<open>nan\<close>).
\<close>

definition np_average :: "real list \<Rightarrow> pyfloat" where
  "np_average xs = (if xs = [] then NaN else Fin (sum_list xs / real (length xs)))"

text \<open>The exceptions the modelled code can raise outside its own \<open>try\<close> blocks.\<close>

datatype error = IndexError | KeyError | ValueError

section \<open>Data: corpora, the selector object, the external model\<close>

type_synonym frame = "real list"
type_synonym matrix = "frame list"
type_synonym seq = "frame list"

text \<open>
  The fields of \<open>ModelSelector\<close> that the code reads. \<open>random_state\<close> is a constant seed
  handed to every fit, so it is part of the fitting primitive below; \<open>verbose\<close> only
  prints.
\<close>

record selector =
  words :: "(string \<times> seq list) list"
  hwords :: "(string \<times> (matrix \<times> nat list)) list"
  sequences :: "seq list"
  X :: matrix
  lengths :: "nat list"
  this_word :: string
  n_constant :: int
  min_n_components :: int
  max_n_components :: int

text \<open>
  \<open>ModelSelector.__init__\<close>: the two dictionaries are association lists in insertion
  order; indexing with a missing key raises \<open>KeyError\<close>.
\<close>

definition ModelSelector_init ::
  "(string \<times> seq list) list \<Rightarrow> (string \<times> (matrix \<times> nat list)) list \<Rightarrow> string \<Rightarrow>
   int \<Rightarrow> int \<Rightarrow> int \<Rightarrow> error + selector" where
  "ModelSelector_init all_word_sequences all_word_Xlengths w nc mn mx =
     (case map_of all_word_sequences w of
        None \<Rightarrow> Inl KeyError
      | Some sq \<Rightarrow>
          (case map_of all_word_Xlengths w of
             None \<Rightarrow> Inl KeyError
           | Some (x, ls) \<Rightarrow>
               Inr \<lparr> words = all_word_sequences, hwords = all_word_Xlengths,
                     sequences = sq, X = x, lengths = ls, this_word = w,
                     n_constant = nc, min_n_components = mn, max_n_components = mx \<rparr>))"

text \<open>
  The hidden-Markov model library is an external capability. It enters every function
  as two parameters:
  \<^item> \<open>fit n X lengths\<close> is \<open>GaussianHMM(n_components=n, random_state=..., n_iter=1000).fit(X, lengths)\<close>,
    \<open>None\<close> when the constructor or the fit raises;
  \<^item> \<open>score m X lengths\<close> is \<open>m.score(X, lengths)\<close>, a real log-likelihood, \<open>None\<close> when
    it raises.
  The type \<open>'m\<close> of fitted models is arbitrary.
\<close>

type_synonym 'm fit_fn = "int \<Rightarrow> matrix \<Rightarrow> nat list \<Rightarrow> 'm option"
type_synonym 'm score_fn = "'m \<Rightarrow> matrix \<Rightarrow> nat list \<Rightarrow> real option"

section \<open>The selectors\<close>

text \<open>
  \<open>base_model\<close>: the fit at \<open>num_states\<close> on the label's own corpus, \<open>None\<close> on any
  exception. The arguments it spells out (\<open>covariance_type="diag"\<close>, \<open>verbose=False\<close>)
  are the library's defaults, so it is the same primitive as the fit of the loops.
\<close>

definition base_model :: "'m fit_fn \<Rightarrow> selector \<Rightarrow> int \<Rightarrow> 'm option" where
  "base_model fit sel num_states = fit num_states (X sel) (lengths sel)"

definition SelectorConstant_select :: "'m fit_fn \<Rightarrow> selector \<Rightarrow> 'm option" where
  "SelectorConstant_select fit sel = base_model fit sel (n_constant sel)"

text \<open>
  The tail of each loop body: \<open>if current_score < best_score: best_score = current_score;
  best_model = current_model\<close> (with \<open>>\<close> for DIC and CV). The candidate is \<open>None\<close> when
  the \<open>try\<close> block raised before reaching the comparison, and then \<open>except: pass\<close> leaves
  the running best as it was.
\<close>

definition keep_better ::
  "(pyfloat \<Rightarrow> pyfloat \<Rightarrow> bool) \<Rightarrow> 'm option \<times> pyfloat \<Rightarrow> ('m option \<times> pyfloat) option \<Rightarrow>
   'm option \<times> pyfloat" where
  "keep_better better best cand =
     (case cand of
        None \<Rightarrow> best
      | Some (current_model, current_score) \<Rightarrow>
          if better current_score (snd best) then (current_model, current_score) else best)"

subsection \<open>BIC\<close>

text \<open>The free-parameter count \<open>p\<close> of the loop body, in Python's unbounded integers.\<close>

definition bic_p :: "int \<Rightarrow> nat \<Rightarrow> int" where
  "bic_p n_components n_features =
     n_components * n_components + 2 * int n_features * n_components - 1"

text \<open>The \<open>try\<close> block of \<open>SelectorBIC.select\<close> up to the comparison.\<close>

definition bic_candidate ::
  "'m fit_fn \<Rightarrow> 'm score_fn \<Rightarrow> selector \<Rightarrow> nat \<Rightarrow> int \<Rightarrow> ('m option \<times> pyfloat) option" where
  "bic_candidate fit score sel n_features n_components =
     (case fit n_components (X sel) (lengths sel) of
        None \<Rightarrow> None
      | Some current_model \<Rightarrow>
          (case score current_model (X sel) (lengths sel) of
             None \<Rightarrow> None
           | Some logL \<Rightarrow>
               let p = bic_p n_components n_features;
                   N = length (X sel);
                   current_score =
                     flt_add (flt_mul (Fin (- 2)) (Fin logL))
                             (flt_mul (Fin (of_int p)) (np_log N))
               in Some (Some current_model, current_score)))"

definition bic_loop ::
  "'m fit_fn \<Rightarrow> 'm score_fn \<Rightarrow> selector \<Rightarrow> nat \<Rightarrow> 'm option \<times> pyfloat \<Rightarrow> int list \<Rightarrow>
   'm option \<times> pyfloat" where
  "bic_loop fit score sel n_features best ks =
     foldl (\<lambda>b n_components.
              keep_better flt_lt b (bic_candidate fit score sel n_features n_components))
           best ks"

text \<open>
  \<open>SelectorBIC.select\<close>. \<open>len(self.X[0])\<close> is evaluated outside the \<open>try\<close>, after the
  fallback fit: on a matrix without rows it raises \<open>IndexError\<close>.
\<close>

definition SelectorBIC_select :: "'m fit_fn \<Rightarrow> 'm score_fn \<Rightarrow> selector \<Rightarrow> error + 'm option" where
  "SelectorBIC_select fit score sel =
     (let best_model = base_model fit sel (n_constant sel);
          best_score = PInf
      in case X sel of
           [] \<Rightarrow> Inl IndexError
         | row0 # _ \<Rightarrow>
             let n_features = length row0
             in Inr (fst (bic_loop fit score sel n_features (best_model, best_score)
                            [min_n_components sel .. max_n_components sel])))"

subsection \<open>DIC\<close>

text \<open>
  The inner loop of \<open>SelectorDIC.select\<close>: \<open>for word in self.words\<close> walks the keys of
  the dictionary in order, skips the selector's own word and appends the score of the
  current model on every other word's corpus. It runs inside the candidate's \<open>try\<close>
  block: a missing key of \<open>self.hwords\<close> or a failing \<open>score\<close> raises, which is \<open>None\<close>
  here.
\<close>

fun dic_competitors ::
  "'m score_fn \<Rightarrow> selector \<Rightarrow> 'm \<Rightarrow> string list \<Rightarrow> real list \<Rightarrow> real list option" where
  "dic_competitors score sel current_model [] sum_logL = Some sum_logL"
| "dic_competitors score sel current_model (word # rest) sum_logL =
     (if word = this_word sel then dic_competitors score sel current_model rest sum_logL
      else
        (case map_of (hwords sel) word of
           None \<Rightarrow> None
         | Some (word_n, word_len) \<Rightarrow>
             (case score current_model word_n word_len of
                None \<Rightarrow> None
              | Some v \<Rightarrow> dic_competitors score sel current_model rest (sum_logL @ [v]))))"

text \<open>The \<open>try\<close> block of \<open>SelectorDIC.select\<close> up to the comparison.\<close>

definition dic_candidate ::
  "'m fit_fn \<Rightarrow> 'm score_fn \<Rightarrow> selector \<Rightarrow> int \<Rightarrow> ('m option \<times> pyfloat) option" where
  "dic_candidate fit score sel n_components =
     (case fit n_components (X sel) (lengths sel) of
        None \<Rightarrow> None
      | Some current_model \<Rightarrow>
          (case score current_model (X sel) (lengths sel) of
             None \<Rightarrow> None
           | Some logL \<Rightarrow>
               (case dic_competitors score sel current_model (map fst (words sel)) [] of
                  None \<Rightarrow> None
                | Some sum_logL \<Rightarrow>
                    Some (Some current_model, flt_sub (Fin logL) (np_average sum_logL)))))"

definition dic_loop ::
  "'m fit_fn \<Rightarrow> 'm score_fn \<Rightarrow> selector \<Rightarrow> 'm option \<times> pyfloat \<Rightarrow> int list \<Rightarrow>
   'm option \<times> pyfloat" where
  "dic_loop fit score sel best ks =
     foldl (\<lambda>b n_components. keep_better flt_gt b (dic_candidate fit score sel n_components))
           best ks"

definition SelectorDIC_select :: "'m fit_fn \<Rightarrow> 'm score_fn \<Rightarrow> selector \<Rightarrow> 'm option" where
  "SelectorDIC_select fit score sel =
     (let best_model = base_model fit sel (n_constant sel);
          best_score = NInf
      in fst (dic_loop fit score sel (best_model, best_score)
                [min_n_components sel .. max_n_components sel]))"

subsection \<open>Cross-validation\<close>

text \<open>
  \<open>KFold\<close> is scikit-learn's, an external library; the model follows its documented
  behaviour without shuffling. The constructor rejects \<open>n_splits \<le> 1\<close> with
  \<open>ValueError\<close>; \<open>split\<close> rejects more splits than samples with \<open>ValueError\<close>; otherwise
  the test folds are consecutive index ranges, the first \<open>n_samples mod n_splits\<close> of
  them one longer than \<open>n_samples div n_splits\<close>, and each training set is the rest of
  the indices in ascending order.
\<close>

definition KFold :: "nat \<Rightarrow> error + nat" where
  "KFold n_splits = (if n_splits \<le> 1 then Inl ValueError else Inr n_splits)"

definition fold_sizes :: "nat \<Rightarrow> nat \<Rightarrow> nat list" where
  "fold_sizes n_samples n_splits =
     map (\<lambda>i. n_samples div n_splits + (if i < n_samples mod n_splits then 1 else 0))
         [0..<n_splits]"

fun kfold_iter :: "nat \<Rightarrow> nat \<Rightarrow> nat list \<Rightarrow> (nat list \<times> nat list) list" where
  "kfold_iter n_samples current [] = []"
| "kfold_iter n_samples current (fold_size # rest) =
     (let test_id = [current..<current + fold_size];
          train_id = filter (\<lambda>i. i \<notin> set test_id) [0..<n_samples]
      in (train_id, test_id) # kfold_iter n_samples (current + fold_size) rest)"

definition KFold_split :: "nat \<Rightarrow> nat \<Rightarrow> error + (nat list \<times> nat list) list" where
  "KFold_split n_splits n_samples =
     (if n_splits > n_samples then Inl ValueError
      else Inr (kfold_iter n_samples 0 (fold_sizes n_samples n_splits)))"

text \<open>
  Modelled from the spec: \<open>combine_sequences\<close> of \<open>asl_utils\<close>, which is not among the
  sources. It concatenates the rows of the selected sequences in index order and lists
  their lengths; an index outside the list raises \<open>IndexError\<close>.
\<close>

definition combine_sequences :: "nat list \<Rightarrow> seq list \<Rightarrow> error + (matrix \<times> nat list)" where
  "combine_sequences split_index_list sqs =
     (if list_all (\<lambda>idx. idx < length sqs) split_index_list
      then Inr (concat (map (\<lambda>idx. sqs ! idx) split_index_list),
                map (\<lambda>idx. length (sqs ! idx)) split_index_list)
      else Inl IndexError)"

text \<open>
  \<open>KFold(n_splits=min(3,len(self.lengths))).split(self.sequences)\<close>, as the list of
  (train indices, test indices) pairs it yields.
\<close>

definition cv_splits :: "selector \<Rightarrow> error + (nat list \<times> nat list) list" where
  "cv_splits sel =
     (case KFold (min 3 (length (lengths sel))) of
        Inl e \<Rightarrow> Inl e
      | Inr n_splits \<Rightarrow> KFold_split n_splits (length (sequences sel)))"

text \<open>
  The body of the loop over the folds: combine the training and the held-out sequences,
  fit on the first, score on the second. The result is the fold's \<open>current_model\<close> and
  its held-out log-likelihood; any exception is \<open>None\<close>.
\<close>

definition cv_fold ::
  "'m fit_fn \<Rightarrow> 'm score_fn \<Rightarrow> selector \<Rightarrow> int \<Rightarrow> nat list \<times> nat list \<Rightarrow> ('m \<times> real) option" where
  "cv_fold fit score sel n_components split_ids =
     (case split_ids of (train_id, test_id) \<Rightarrow>
        (case combine_sequences train_id (sequences sel) of
           Inl _ \<Rightarrow> None
         | Inr (train_n, train_len) \<Rightarrow>
             (case combine_sequences test_id (sequences sel) of
                Inl _ \<Rightarrow> None
              | Inr (test_n, test_len) \<Rightarrow>
                  (case fit n_components train_n train_len of
                     None \<Rightarrow> None
                   | Some current_model \<Rightarrow>
                       (case score current_model test_n test_len of
                          None \<Rightarrow> None
                        | Some v \<Rightarrow> Some (current_model, v))))))"

text \<open>
  The loop over the folds. The accumulator holds the variable \<open>current_model\<close> (the model
  of the latest fold) and the list \<open>logL\<close>. An exception in any fold leaves the whole
  \<open>try\<close> block: \<open>None\<close>.
\<close>

fun cv_folds ::
  "'m fit_fn \<Rightarrow> 'm score_fn \<Rightarrow> selector \<Rightarrow> int \<Rightarrow> (nat list \<times> nat list) list \<Rightarrow>
   'm option \<times> real list \<Rightarrow> ('m option \<times> real list) option" where
  "cv_folds fit score sel n_components [] acc = Some acc"
| "cv_folds fit score sel n_components (split_ids # rest) (cm, logL) =
     (case cv_fold fit score sel n_components split_ids of
        None \<Rightarrow> None
      | Some (current_model, v) \<Rightarrow>
          cv_folds fit score sel n_components rest (Some current_model, logL @ [v]))"

text \<open>
  The \<open>try\<close> block of \<open>SelectorCV.select\<close> up to the comparison. With no fold at all the
  mean is NaN, the comparison is false and \<open>current_model\<close> is not read; the \<open>None\<close> that
  starts the accumulator stands for that case.
\<close>

definition cv_candidate ::
  "'m fit_fn \<Rightarrow> 'm score_fn \<Rightarrow> selector \<Rightarrow> int \<Rightarrow> ('m option \<times> pyfloat) option" where
  "cv_candidate fit score sel n_components =
     (case cv_splits sel of
        Inl _ \<Rightarrow> None
      | Inr folds \<Rightarrow>
          (case cv_folds fit score sel n_components folds (None, []) of
             None \<Rightarrow> None
           | Some (current_model, logL) \<Rightarrow> Some (current_model, np_average logL)))"

definition cv_loop ::
  "'m fit_fn \<Rightarrow> 'm score_fn \<Rightarrow> selector \<Rightarrow> 'm option \<times> pyfloat \<Rightarrow> int list \<Rightarrow>
   'm option \<times> pyfloat" where
  "cv_loop fit score sel best ks =
     foldl (\<lambda>b n_components. keep_better flt_gt b (cv_candidate fit score sel n_components))
           best ks"

definition SelectorCV_select :: "'m fit_fn \<Rightarrow> 'm score_fn \<Rightarrow> selector \<Rightarrow> 'm option" where
  "SelectorCV_select fit score sel =
     (let best_model = base_model fit sel (n_constant sel);
          best_score = NInf
      in fst (cv_loop fit score sel (best_model, best_score)
                [min_n_components sel .. max_n_components sel]))"

subsection \<open>The fits a run attempts\<close>











section \<open>The recogniser\<close>

text \<open>
  A dictionary in insertion order is an association list; \<open>scores[word] = v\<close> is
  \<open>AList.update\<close>, which overwrites in place or appends. \<open>models.items()\<close> and
  \<open>test_set.get_all_Xlengths().items()\<close> are walked in that order.
\<close>

type_synonym score_row = "(string \<times> pyfloat) list"

text \<open>
  The \<open>try\<close>/\<open>except\<close> around \<open>model.score(X, lengths)\<close>: the score, or \<open>float("-inf")\<close>
  when it raises.
\<close>

definition try_score :: "'m score_fn \<Rightarrow> 'm \<Rightarrow> matrix \<Rightarrow> nat list \<Rightarrow> pyfloat" where
  "try_score score model x ls = (case score model x ls of Some v \<Rightarrow> Fin v | None \<Rightarrow> NInf)"

definition score_row_of ::
  "'m score_fn \<Rightarrow> (string \<times> 'm) list \<Rightarrow> matrix \<Rightarrow> nat list \<Rightarrow> score_row" where
  "score_row_of score models x ls =
     foldl (\<lambda>scores (word, model). AList.update word (try_score score model x ls) scores)
           [] models"

text \<open>
  \<open>max(scores, key=scores.get)\<close>: Python keeps the first element and replaces it only by
  one whose key is strictly greater; on an empty dictionary it raises \<open>ValueError\<close>. The
  key of a word is its own entry, so the walk is over the entries.
\<close>

definition py_max_word :: "score_row \<Rightarrow> error + string" where
  "py_max_word scores =
     (case scores of
        [] \<Rightarrow> Inl ValueError
      | first # rest \<Rightarrow>
          Inr (fst (foldl (\<lambda>best item. if flt_gt (snd item) (snd best) then item else best)
                      first rest)))"

fun recognize_loop ::
  "'m score_fn \<Rightarrow> (string \<times> 'm) list \<Rightarrow> ('i \<times> (matrix \<times> nat list)) list \<Rightarrow>
   score_row list \<times> string list \<Rightarrow> error + (score_row list \<times> string list)" where
  "recognize_loop score models [] (probabilities, guesses) = Inr (probabilities, guesses)"
| "recognize_loop score models ((i, (x, ls)) # rest) (probabilities, guesses) =
     (let scores = score_row_of score models x ls
      in case py_max_word scores of
           Inl e \<Rightarrow> Inl e
         | Inr guess_word \<Rightarrow>
             recognize_loop score models rest
               (probabilities @ [scores], guesses @ [guess_word]))"

definition recognize ::
  "'m score_fn \<Rightarrow> (string \<times> 'm) list \<Rightarrow> ('i \<times> (matrix \<times> nat list)) list \<Rightarrow>
   error + (score_row list \<times> string list)" where
  "recognize score models test_set = recognize_loop score models test_set ([], [])"

section \<open>Behaviour as the specification words it\<close>

text \<open>
  For comparison only, the competing-label loop as the specification words it: a
  competing label whose score raises is left out of the list and the loop goes on.
  \<open>SelectorDIC.select\<close> does not do this.
\<close>

fun dic_competitors_excluding ::
  "'m score_fn \<Rightarrow> selector \<Rightarrow> 'm \<Rightarrow> string list \<Rightarrow> real list \<Rightarrow> real list option" where
  "dic_competitors_excluding score sel current_model [] sum_logL = Some sum_logL"
| "dic_competitors_excluding score sel current_model (word # rest) sum_logL =
     (if word = this_word sel
      then dic_competitors_excluding score sel current_model rest sum_logL
      else
        (case map_of (hwords sel) word of
           None \<Rightarrow> None
         | Some (word_n, word_len) \<Rightarrow>
             (case score current_model word_n word_len of
                None \<Rightarrow> dic_competitors_excluding score sel current_model rest sum_logL
              | Some v \<Rightarrow>
                  dic_competitors_excluding score sel current_model rest (sum_logL @ [v]))))"

definition dic_candidate_excluding ::
  "'m fit_fn \<Rightarrow> 'm score_fn \<Rightarrow> selector \<Rightarrow> int \<Rightarrow> ('m option \<times> pyfloat) option" where
  "dic_candidate_excluding fit score sel n_components =
     (case fit n_components (X sel) (lengths sel) of
        None \<Rightarrow> None
      | Some current_model \<Rightarrow>
          (case score current_model (X sel) (lengths sel) of
             None \<Rightarrow> None
           | Some logL \<Rightarrow>
               (case dic_competitors_excluding score sel current_model
                       (map fst (words sel)) [] of
                  None \<Rightarrow> None
                | Some sum_logL \<Rightarrow>
                    Some (Some current_model, flt_sub (Fin logL) (np_average sum_logL)))))"

section \<open>A small concrete model library and corpora\<close>

text \<open>
  A stand-in for the external library, used to run the functions above on concrete
  inputs. A fitted model records its state count and the data it was trained on. The fit
  converges for one to three states on a matrix with at least one row. The score of a
  matrix is minus the summed distance of its entries from the state count; it raises on
  an empty matrix and on a row whose width differs from the training rows' width.
\<close>

datatype hmm = HMM int matrix "nat list"

definition ex_fit :: "hmm fit_fn" where
  "ex_fit n x ls = (if 1 \<le> n \<and> n \<le> 3 \<and> x \<noteq> [] then Some (HMM n x ls) else None)"

fun ex_score :: "hmm score_fn" where
  "ex_score (HMM n tx tls) x ls =
     (if x = [] \<or> list_ex (\<lambda>r. length r \<noteq> length (hd tx)) x then None
      else Some (- sum_list (map (\<lambda>r. sum_list (map (\<lambda>v. \<bar>v - of_int n\<bar>) r)) x)))"

text \<open>Three labels: two with one-feature frames, one (\<open>''B''\<close>) with two-feature frames.\<close>

definition ex_sequences :: "(string \<times> seq list) list" where
  "ex_sequences =
     [(''A'', [[[2]], [[2], [3]], [[2]]]),
      (''B'', [[[1, 1]]]),
      (''C'', [[[5]]])]"

definition ex_Xlengths :: "(string \<times> (matrix \<times> nat list)) list" where
  "ex_Xlengths =
     [(''A'', ([[2], [2], [3], [2]], [1, 2, 1])),
      (''B'', ([[1, 1]], [1])),
      (''C'', ([[5]], [1]))]"

definition ex_sel :: "string \<Rightarrow> int \<Rightarrow> int \<Rightarrow> int \<Rightarrow> selector" where
  "ex_sel w nc mn mx =
     (case ModelSelector_init ex_sequences ex_Xlengths w nc mn mx of
        Inr sel \<Rightarrow> sel
      | Inl _ \<Rightarrow> \<lparr> words = [], hwords = [], sequences = [], X = [], lengths = [],
                   this_word = w, n_constant = nc, min_n_components = mn,
                   max_n_components = mx \<rparr>)"

text \<open>The same vocabulary without the label whose frames have another width.\<close>

definition ex_sel2 :: "string \<Rightarrow> int \<Rightarrow> int \<Rightarrow> int \<Rightarrow> selector" where
  "ex_sel2 w nc mn mx =
     (ex_sel w nc mn mx)
       \<lparr> words := [(''A'', [[[2]], [[2], [3]], [[2]]]), (''C'', [[[5]]])],
         hwords := [(''A'', ([[2], [2], [3], [2]], [1, 2, 1])), (''C'', ([[5]], [1]))] \<rparr>"

text \<open>A bank of three fitted models and a test corpus of two items.\<close>

definition ex_models :: "(string \<times> hmm) list" where
  "ex_models = [(''A'', HMM 2 [[2]] [1]), (''B'', HMM 1 [[1, 1]] [1]), (''C'', HMM 3 [[5]] [1])]"

definition ex_test_set :: "(nat \<times> (matrix \<times> nat list)) list" where
  "ex_test_set = [(0, ([[2], [3]], [2])), (1, ([[4], [4]], [2]))]"

text \<open>A corpus of exactly two sequences.\<close>

definition ex_sel_pair :: selector where
  "ex_sel_pair =
     (ex_sel ''A'' 3 2 3)
       \<lparr> sequences := [[[2]], [[2], [3]]], X := [[2], [2], [3]], lengths := [1, 2] \<rparr>"



section \<open>Properties\<close>

subsection \<open>Float comparisons\<close>

lemma flt_lt_irrefl: "\<not> flt_lt a a"
  by (cases a) auto

lemma flt_lt_trans: "flt_lt a b \<Longrightarrow> flt_lt b c \<Longrightarrow> flt_lt a c"
  by (cases a; cases b; cases c) auto

lemma flt_lt_total: "a \<noteq> NaN \<Longrightarrow> b \<noteq> NaN \<Longrightarrow> flt_lt a b \<or> a = b \<or> flt_lt b a"
  by (cases a; cases b) auto

subsection \<open>Score rows\<close>

lemma update_fresh: "k \<notin> fst ` set al \<Longrightarrow> AList.update k v al = al @ [(k, v)]"
  by (induction al) auto

lemma score_row_step:
  "score_row_of score (models @ [(w, m)]) x ls =
   AList.update w (try_score score m x ls) (score_row_of score models x ls)"
  by (simp add: score_row_of_def try_score_def)

lemma score_row_keys:
  "fst ` set (score_row_of score models x ls) = fst ` set models"
proof (induction models rule: rev_induct)
  case Nil
  then show ?case by (simp add: score_row_of_def)
next
  case (snoc a models)
  obtain w m where a: "a = (w, m)" by (cases a)
  have "fst ` set (AList.update w v al) = insert w (fst ` set al)" for v and al :: score_row
    using dom_update [of w v al] by (simp add: dom_map_of_conv_image_fst)
  with snoc a show ?case by (simp add: score_row_step)
qed

lemma score_row_distinct:
  "distinct (map fst models) \<Longrightarrow>
   score_row_of score models x ls = map (\<lambda>(w, m). (w, try_score score m x ls)) models"
proof (induction models rule: rev_induct)
  case Nil
  then show ?case by (simp add: score_row_of_def)
next
  case (snoc a models)
  obtain w m where a: "a = (w, m)" by (cases a)
  from snoc.prems a have d: "distinct (map fst models)" and w: "w \<notin> fst ` set models"
    by auto
  from w have "w \<notin> fst ` set (score_row_of score models x ls)"
    by (simp add: score_row_keys)
  then show ?case
    using snoc.IH [OF d] a by (simp add: score_row_step update_fresh)
qed

lemma score_row_values:
  "e \<in> set (score_row_of score models x ls) \<Longrightarrow> snd e = NInf \<or> (\<exists>v. snd e = Fin v)"
proof (induction models arbitrary: e rule: rev_induct)
  case Nil
  then show ?case by (simp add: score_row_of_def)
next
  case (snoc a models)
  obtain w m where a: "a = (w, m)" by (cases a)
  have "set (AList.update w v al) \<subseteq> insert (w, v) (set al)" for v and al :: score_row
    by (induction al) auto
  with snoc.prems a
  have "e = (w, try_score score m x ls) \<or> e \<in> set (score_row_of score models x ls)"
    by (auto simp: score_row_step)
  then show ?case
  proof
    assume "e = (w, try_score score m x ls)"
    then show ?thesis by (simp add: try_score_def split: option.splits)
  next
    assume "e \<in> set (score_row_of score models x ls)"
    then show ?thesis by (rule snoc.IH)
  qed
qed

lemma score_row_nonempty: "models \<noteq> [] \<Longrightarrow> score_row_of score models x ls \<noteq> []"
  using score_row_keys [of score models x ls] by (cases models) auto

subsection \<open>The arg-max of a score row\<close>

lemma max_walk:
  assumes "\<forall>e \<in> set (first # rest). snd e \<noteq> NaN"
  shows "\<exists>pre g v post. first # rest = pre @ (g, v) # post \<and>
           foldl (\<lambda>best item. if flt_gt (snd item) (snd best) then item else best) first rest
             = (g, v) \<and>
           (\<forall>e \<in> set pre. flt_lt (snd e) v) \<and> (\<forall>e \<in> set post. \<not> flt_gt (snd e) v)"
  using assms
proof (induction rest rule: rev_induct)
  case Nil
  show ?case
    by (rule exI [of _ "[]"], rule exI [of _ "fst first"], rule exI [of _ "snd first"],
        rule exI [of _ "[]"]) simp
next
  case (snoc x rest)
  let ?step = "\<lambda>best item. if flt_gt (snd item) (snd best) then item else best"
  from snoc obtain pre g v post where
    split: "first # rest = pre @ (g, v) # post" and
    best: "foldl ?step first rest = (g, v)" and
    pre: "\<forall>e \<in> set pre. flt_lt (snd e) v" and
    post: "\<forall>e \<in> set post. \<not> flt_gt (snd e) v"
    by auto
  have nn: "\<forall>e \<in> set (first # rest). snd e \<noteq> NaN" "snd x \<noteq> NaN"
    using snoc.prems by auto
  from split nn(1) have vn: "v \<noteq> NaN"
    by (metis in_set_conv_decomp snd_conv)
  show ?case
  proof (cases "flt_gt (snd x) v")
    case True
    have "\<forall>e \<in> set (first # rest). flt_lt (snd e) (snd x)"
    proof
      fix e assume e: "e \<in> set (first # rest)"
      then have en: "snd e \<noteq> NaN" using nn(1) by blast
      from e split have "e \<in> set pre \<or> e = (g, v) \<or> e \<in> set post"
        by (metis Un_iff insert_iff list.simps(15) set_append)
      then have "flt_lt (snd e) v \<or> snd e = v"
        using pre post flt_lt_total [OF en vn] by (auto simp: flt_gt_def)
      with True show "flt_lt (snd e) (snd x)"
        by (auto simp: flt_gt_def intro: flt_lt_trans)
    qed
    moreover have "foldl ?step first (rest @ [x]) = (fst x, snd x)"
      using best True by simp
    ultimately show ?thesis
      by (intro exI [of _ "first # rest"] exI [of _ "fst x"] exI [of _ "snd x"]
          exI [of _ "[]"]) simp
  next
    case False
    have "foldl ?step first (rest @ [x]) = (g, v)"
      using best False by simp
    moreover have "first # rest @ [x] = pre @ (g, v) # (post @ [x])"
      using split by simp
    ultimately show ?thesis
      using pre post False
      by (intro exI [of _ pre] exI [of _ g] exI [of _ v] exI [of _ "post @ [x]"]) simp
  qed
qed

lemma py_max_word_first_max:
  assumes "scores \<noteq> []" "\<forall>e \<in> set scores. snd e \<noteq> NaN"
  shows "\<exists>pre g v post. scores = pre @ (g, v) # post \<and> py_max_word scores = Inr g \<and>
           (\<forall>e \<in> set pre. flt_lt (snd e) v) \<and> (\<forall>e \<in> set post. \<not> flt_gt (snd e) v)"
proof -
  from assms(1) obtain first rest where s: "scores = first # rest" by (cases scores) auto
  from max_walk [of first rest] assms(2) s
  obtain pre g v post where
    sp: "first # rest = pre @ (g, v) # post" and
    fl: "foldl (\<lambda>best item. if flt_gt (snd item) (snd best) then item else best) first rest = (g, v)" and
    pp: "\<forall>e \<in> set pre. flt_lt (snd e) v" "\<forall>e \<in> set post. \<not> flt_gt (snd e) v"
    by blast
  have "py_max_word (first # rest) = Inr g"
    by (simp add: py_max_word_def fl)
  with sp pp s show ?thesis by metis
qed

lemma py_max_word_empty: "py_max_word [] = Inl ValueError"
  by (simp add: py_max_word_def)


subsection \<open>The recogniser loop\<close>

lemma py_max_word_nonempty: "scores \<noteq> [] \<Longrightarrow> \<exists>g. py_max_word scores = Inr g"
  by (cases scores) (simp_all add: py_max_word_def)

lemma recognize_loop_nonempty:
  "models \<noteq> [] \<Longrightarrow>
   \<exists>gs'. recognize_loop score models items (ps, gs) =
     Inr (ps @ map (\<lambda>it. score_row_of score models (fst (snd it)) (snd (snd it))) items,
          gs @ gs') \<and>
     list_all2 (\<lambda>it g. py_max_word (score_row_of score models (fst (snd it)) (snd (snd it)))
                          = Inr g) items gs'"
proof (induction items arbitrary: ps gs)
  case Nil
  then show ?case by simp
next
  case (Cons it items)
  obtain i x ls where it: "it = (i, (x, ls))" by (cases it) auto
  obtain g where g: "py_max_word (score_row_of score models x ls) = Inr g"
    using Cons.prems py_max_word_nonempty score_row_nonempty by blast
  from Cons.IH [OF Cons.prems, of "ps @ [score_row_of score models x ls]" "gs @ [g]"]
  obtain gs' where
    "recognize_loop score models items (ps @ [score_row_of score models x ls], gs @ [g]) =
       Inr ((ps @ [score_row_of score models x ls]) @
              map (\<lambda>it. score_row_of score models (fst (snd it)) (snd (snd it))) items,
            (gs @ [g]) @ gs')"
    "list_all2 (\<lambda>it g. py_max_word (score_row_of score models (fst (snd it)) (snd (snd it)))
                          = Inr g) items gs'"
    by blast
  then show ?case
    using it g by (intro exI [of _ "g # gs'"]) (simp add: Let_def)
qed

lemma recognize_loop_empty_bank:
  "items \<noteq> [] \<Longrightarrow> recognize_loop score [] items (ps, gs) = Inl ValueError"
  by (cases items) (auto simp: score_row_of_def py_max_word_def)

lemma recognize_nonempty:
  assumes "models \<noteq> []"
  shows "\<exists>ps gs. recognize score models test_set = Inr (ps, gs) \<and>
           length ps = length test_set \<and> length gs = length test_set \<and>
           (\<forall>j<length test_set.
              ps ! j = score_row_of score models (fst (snd (test_set ! j)))
                         (snd (snd (test_set ! j))) \<and>
              py_max_word (ps ! j) = Inr (gs ! j))"
proof -
  let ?row = "\<lambda>it. score_row_of score models (fst (snd it)) (snd (snd it))"
  from recognize_loop_nonempty [OF assms, of score test_set "[]" "[]"]
  obtain gs where
    r: "recognize score models test_set = Inr (map ?row test_set, gs)" and
    l: "list_all2 (\<lambda>it g. py_max_word (?row it) = Inr g) test_set gs"
    by (auto simp: recognize_def)
  from l have "length gs = length test_set"
    and "\<forall>j<length test_set. py_max_word (?row (test_set ! j)) = Inr (gs ! j)"
    by (simp_all add: list_all2_conv_all_nth)
  with r show ?thesis by simp
qed


lemma recognize_empty_corpus: "recognize score models [] = Inr ([], [])"
  by (simp add: recognize_def)

lemma recognize_empty_bank:
  "test_set \<noteq> [] \<Longrightarrow> recognize score [] test_set = Inl ValueError"
  by (simp add: recognize_def recognize_loop_empty_bank)

lemma score_row_lookup:
  assumes "distinct (map fst models)" "(w, m) \<in> set models"
  shows "map_of (score_row_of score models x ls) w = Some (try_score score m x ls)"
proof -
  have "map_of models w = Some m"
    using assms by (rule map_of_is_SomeI)
  then show ?thesis
    using assms(1) by (simp add: score_row_distinct map_of_map)
qed

text \<open>
  C3. For every test item and every label of the bank whose model fails to score the
  item, the item's score row holds \<open>-inf\<close> for that label; and whatever the scoring
  function does, \<open>recognize\<close> returns its two lists. The one exception it can raise is
  the \<open>ValueError\<close> of \<open>max\<close> on an empty bank, which is not a scoring failure.
\<close>

theorem recognize_records_failure:
  assumes "distinct (map fst models)"
  shows "(models = [] \<and> test_set \<noteq> [] \<and> recognize score models test_set = Inl ValueError) \<or>
         (\<exists>ps gs. recognize score models test_set = Inr (ps, gs) \<and>
            length ps = length test_set \<and>
            (\<forall>j<length test_set. \<forall>w m.
               (w, m) \<in> set models \<longrightarrow>
               score m (fst (snd (test_set ! j))) (snd (snd (test_set ! j))) = None \<longrightarrow>
               map_of (ps ! j) w = Some NInf))"
proof (cases "models = []")
  case True
  then show ?thesis
    by (cases "test_set = []") (simp_all add: recognize_empty_corpus recognize_empty_bank)
next
  case False
  from recognize_nonempty [OF False, of score test_set]
  obtain ps gs where
    r: "recognize score models test_set = Inr (ps, gs)" and
    l: "length ps = length test_set" and
    rows: "\<forall>j<length test_set.
             ps ! j = score_row_of score models (fst (snd (test_set ! j)))
                        (snd (snd (test_set ! j)))"
    by blast
  have "map_of (ps ! j) w = Some NInf"
    if "j < length test_set" "(w, m) \<in> set models"
       "score m (fst (snd (test_set ! j))) (snd (snd (test_set ! j))) = None" for j w m
    using that rows score_row_lookup [OF assms that(2), of score]
    by (simp add: try_score_def)
  with r l show ?thesis by blast
qed

theorem recognize_records_failure_witness:
  "distinct (map fst ex_models) \<and>
   score_row_of ex_score ex_models [[2], [3]] [2] =
     [(''A'', Fin (- 1)), (''B'', NInf), (''C'', Fin (- 1))] \<and>
   recognize ex_score ex_models ex_test_set =
     Inr ([[(''A'', Fin (- 1)), (''B'', NInf), (''C'', Fin (- 1))],
           [(''A'', Fin (- 4)), (''B'', NInf), (''C'', Fin (- 2))]],
          [''A'', ''C''])"
  using recognize_records_failure [of ex_models ex_test_set ex_score]
  by (simp add: ex_models_def ex_test_set_def recognize_def score_row_of_def try_score_def
      py_max_word_def flt_gt_def)

text \<open>
  C7. The guess of every item is an entry of the item's score row that no entry exceeds,
  and every entry before it in the row's order is strictly smaller: the first maximal
  label wins.
\<close>

theorem recognize_guess_first_maximum:
  assumes "models \<noteq> []"
  shows "\<exists>ps gs. recognize score models test_set = Inr (ps, gs) \<and>
           length ps = length test_set \<and> length gs = length test_set \<and>
           (\<forall>j<length test_set. \<exists>pre v post.
              ps ! j = pre @ (gs ! j, v) # post \<and>
              (\<forall>e \<in> set pre. flt_lt (snd e) v) \<and>
              (\<forall>e \<in> set post. \<not> flt_gt (snd e) v))"
proof -
  from recognize_nonempty [OF assms, of score test_set]
  obtain ps gs where
    r: "recognize score models test_set = Inr (ps, gs)" and
    l: "length ps = length test_set" "length gs = length test_set" and
    rows: "\<forall>j<length test_set.
             ps ! j = score_row_of score models (fst (snd (test_set ! j)))
                        (snd (snd (test_set ! j))) \<and>
             py_max_word (ps ! j) = Inr (gs ! j)"
    by blast
  have "\<exists>pre v post. ps ! j = pre @ (gs ! j, v) # post \<and>
          (\<forall>e \<in> set pre. flt_lt (snd e) v) \<and> (\<forall>e \<in> set post. \<not> flt_gt (snd e) v)"
    if j: "j < length test_set" for j
  proof -
    from rows j have row: "ps ! j = score_row_of score models (fst (snd (test_set ! j)))
                        (snd (snd (test_set ! j)))"
      and g: "py_max_word (ps ! j) = Inr (gs ! j)" by auto
    have ne: "ps ! j \<noteq> []"
      unfolding row using assms by (rule score_row_nonempty)
    have nn: "\<forall>e \<in> set (ps ! j). snd e \<noteq> NaN"
      unfolding row using score_row_values by fastforce
    from py_max_word_first_max [OF ne nn] g show ?thesis
      by auto
  qed
  with r l show ?thesis by blast
qed

theorem recognize_guess_first_maximum_witness:
  "ex_models \<noteq> [] \<and>
   recognize ex_score ex_models ex_test_set =
     Inr ([[(''A'', Fin (- 1)), (''B'', NInf), (''C'', Fin (- 1))],
           [(''A'', Fin (- 4)), (''B'', NInf), (''C'', Fin (- 2))]],
          [''A'', ''C''])"
  using recognize_guess_first_maximum [of ex_models ex_score ex_test_set]
  by (simp add: ex_models_def ex_test_set_def recognize_def score_row_of_def try_score_def
      py_max_word_def flt_gt_def)

text \<open>
  C6, as the code has it. For a bank with at least one label (or a corpus without
  items), \<open>recognize\<close> returns one score row and one guess per test item, in the order
  of the test items: entry \<open>j\<close> of either list is computed from item \<open>j\<close>; the labels of
  every row are exactly the labels of the bank.
\<close>

theorem recognize_output_shape:
  assumes "models \<noteq> [] \<or> test_set = []"
  shows "\<exists>ps gs. recognize score models test_set = Inr (ps, gs) \<and>
           length ps = length test_set \<and> length gs = length test_set \<and>
           (\<forall>j<length test_set.
              fst ` set (ps ! j) = fst ` set models \<and>
              ps ! j = score_row_of score models (fst (snd (test_set ! j)))
                         (snd (snd (test_set ! j))) \<and>
              py_max_word (ps ! j) = Inr (gs ! j))"
proof (cases "models = []")
  case True
  with assms have "test_set = []" by simp
  then show ?thesis by (simp add: recognize_empty_corpus)
next
  case False
  from recognize_nonempty [OF False, of score test_set]
  obtain ps gs where
    r: "recognize score models test_set = Inr (ps, gs)" and
    l: "length ps = length test_set" "length gs = length test_set" and
    rows: "\<forall>j<length test_set.
             ps ! j = score_row_of score models (fst (snd (test_set ! j)))
                        (snd (snd (test_set ! j))) \<and>
             py_max_word (ps ! j) = Inr (gs ! j)"
    by blast
  from rows have "\<forall>j<length test_set. fst ` set (ps ! j) = fst ` set models"
    by (simp add: score_row_keys)
  with r l rows show ?thesis by blast
qed

theorem recognize_output_shape_witness:
  "ex_models \<noteq> [] \<and> length ex_test_set = 2 \<and>
   recognize ex_score ex_models ex_test_set =
     Inr ([[(''A'', Fin (- 1)), (''B'', NInf), (''C'', Fin (- 1))],
           [(''A'', Fin (- 4)), (''B'', NInf), (''C'', Fin (- 2))]],
          [''A'', ''C''])"
  using recognize_output_shape [of ex_models ex_test_set ex_score]
  by (simp add: ex_models_def ex_test_set_def recognize_def score_row_of_def try_score_def
      py_max_word_def flt_gt_def)

text \<open>
  The claim as stated fails on an empty bank: with two test items and no model,
  \<open>max\<close> of the empty score row raises and no list is returned.
\<close>

theorem recognize_output_shape_counterexample:
  "length ex_test_set = 2 \<and>
   recognize ex_score [] ex_test_set = Inl ValueError \<and>
   \<not> (\<exists>ps gs. recognize ex_score [] ex_test_set = Inr (ps, gs) \<and>
         length ps = length ex_test_set \<and> length gs = length ex_test_set)"
  by (simp add: ex_test_set_def recognize_def score_row_of_def py_max_word_def)

text \<open>
  C9, as the code has it. For every bank with at least one label, whatever labels of
  the vocabulary it lacks, \<open>recognize\<close> returns its two lists, one entry per test item,
  and every guess is a label of the bank.
\<close>

theorem recognize_partial_bank:
  assumes "models \<noteq> []"
  shows "\<exists>ps gs. recognize score models test_set = Inr (ps, gs) \<and>
           length ps = length test_set \<and> length gs = length test_set \<and>
           set gs \<subseteq> fst ` set models"
proof -
  from recognize_nonempty [OF assms, of score test_set]
  obtain ps gs where
    r: "recognize score models test_set = Inr (ps, gs)" and
    l: "length ps = length test_set" "length gs = length test_set" and
    rows: "\<forall>j<length test_set.
             ps ! j = score_row_of score models (fst (snd (test_set ! j)))
                        (snd (snd (test_set ! j))) \<and>
             py_max_word (ps ! j) = Inr (gs ! j)"
    by blast
  have "gs ! j \<in> fst ` set models" if j: "j < length test_set" for j
  proof -
    from rows j have row: "ps ! j = score_row_of score models (fst (snd (test_set ! j)))
                        (snd (snd (test_set ! j)))"
      and g: "py_max_word (ps ! j) = Inr (gs ! j)" by auto
    have ne: "ps ! j \<noteq> []"
      unfolding row using assms by (rule score_row_nonempty)
    have nn: "\<forall>e \<in> set (ps ! j). snd e \<noteq> NaN"
      unfolding row using score_row_values by fastforce
    from py_max_word_first_max [OF ne nn] g
    obtain pre v post where "ps ! j = pre @ (gs ! j, v) # post" by auto
    then have "gs ! j \<in> fst ` set (ps ! j)" by force
    then show ?thesis by (simp add: row score_row_keys)
  qed
  then have "set gs \<subseteq> fst ` set models"
    using l(2) by (auto simp: in_set_conv_nth)
  with r l show ?thesis by blast
qed

theorem recognize_partial_bank_witness:
  "[(''C'', HMM 3 [[5]] [1])] \<noteq> [] \<and>
   recognize ex_score [(''C'', HMM 3 [[5]] [1])] ex_test_set =
     Inr ([[(''C'', Fin (- 1))], [(''C'', Fin (- 2))]], [''C'', ''C''])"
  using recognize_partial_bank [of "[(''C'', HMM 3 [[5]] [1])]" ex_score ex_test_set]
  by (simp add: ex_test_set_def recognize_def score_row_of_def try_score_def
      py_max_word_def flt_gt_def)

text \<open>
  The claim as stated fails on the bank that lacks every label: with one test item and
  no model, \<open>recognize\<close> raises \<open>ValueError\<close>.
\<close>

theorem recognize_partial_bank_counterexample:
  "recognize ex_score [] [(0 :: nat, ([[2]], [1]))] = Inl ValueError \<and>
   \<not> (\<exists>ps gs. recognize ex_score [] [(0 :: nat, ([[2]], [1]))] = Inr (ps, gs))"
  by (simp add: recognize_def score_row_of_def py_max_word_def)

subsection \<open>The running best of a selection loop\<close>

lemma keep_better_loop_all_fail:
  "\<forall>k \<in> set ks. ev k = None \<Longrightarrow> foldl (\<lambda>b k. keep_better better b (ev k)) best ks = best"
  by (induction ks rule: rev_induct) (auto simp: keep_better_def)

lemma keep_better_loop_skip:
  "ev k = None \<Longrightarrow>
   foldl (\<lambda>b k. keep_better better b (ev k)) best (ks1 @ k # ks2) =
   foldl (\<lambda>b k. keep_better better b (ev k)) best (ks1 @ ks2)"
  by (simp add: keep_better_def)

lemma keep_better_loop_source:
  "foldl (\<lambda>b k. keep_better better b (ev k)) best ks = best \<or>
   (\<exists>k \<in> set ks. ev k = Some (foldl (\<lambda>b k. keep_better better b (ev k)) best ks))"
  by (induction ks rule: rev_induct) (auto simp: keep_better_def split: option.splits)

lemma keep_better_loop_optimal:
  assumes irr: "\<And>a. \<not> better a a"
    and tr: "\<And>a b c. better a b \<Longrightarrow> better b c \<Longrightarrow> better a c"
  shows "\<forall>k \<in> set ks. \<forall>m s. ev k = Some (m, s) \<longrightarrow>
           \<not> better s (snd (foldl (\<lambda>b k. keep_better better b (ev k)) best ks))"
proof (induction ks rule: rev_induct)
  case Nil
  then show ?case by simp
next
  case (snoc k ks)
  then show ?case
    by (auto simp: keep_better_def irr split: option.splits dest: tr)
qed

lemma keep_better_loop_improves:
  assumes irr: "\<And>a. \<not> better a a"
    and tr: "\<And>a b c. better a b \<Longrightarrow> better b c \<Longrightarrow> better a c"
    and k: "k \<in> set ks" "ev k = Some (m, s)" "better s (snd best)"
  shows "\<exists>j \<in> set ks. ev j = Some (foldl (\<lambda>b k. keep_better better b (ev k)) best ks)"
proof -
  let ?r = "foldl (\<lambda>b k. keep_better better b (ev k)) best ks"
  have "\<forall>k \<in> set ks. \<forall>m s. ev k = Some (m, s) \<longrightarrow> \<not> better s (snd ?r)"
    by (rule keep_better_loop_optimal) (auto intro: tr simp: irr)
  with k(1,2) have "\<not> better s (snd ?r)" by blast
  with k(3) have "?r \<noteq> best" by auto
  with keep_better_loop_source [of better ev best ks] show ?thesis by blast
qed

lemma flt_gt_irrefl: "\<not> flt_gt a a"
  by (simp add: flt_gt_def flt_lt_irrefl)

lemma flt_gt_trans: "flt_gt a b \<Longrightarrow> flt_gt b c \<Longrightarrow> flt_gt a c"
  unfolding flt_gt_def by (rule flt_lt_trans)

subsection \<open>BIC\<close>

lemma bic_candidate_value:
  assumes "fit k (X sel) (lengths sel) = Some m" "score m (X sel) (lengths sel) = Some logL"
    and "X sel \<noteq> []"
  shows "bic_candidate fit score sel d k =
         Some (Some m, Fin (- 2 * logL + of_int (k * k + 2 * int d * k - 1)
                                           * ln (real (length (X sel)))))"
  using assms by (simp add: bic_candidate_def bic_p_def np_log_def Let_def)

lemma bic_candidate_None:
  "bic_candidate fit score sel d k = None \<longleftrightarrow>
   (\<forall>m. fit k (X sel) (lengths sel) = Some m \<longrightarrow> score m (X sel) (lengths sel) = None)"
  by (auto simp: bic_candidate_def Let_def split: option.splits)

lemma bic_candidate_shape:
  assumes "bic_candidate fit score sel d k = Some c" "X sel \<noteq> []"
  shows "\<exists>m b. c = (Some m, Fin b)"
  using assms
  by (auto simp: bic_candidate_def bic_p_def np_log_def Let_def split: option.splits)

lemma bic_loop_result:
  assumes ne: "X sel \<noteq> []"
    and r_def: "r = bic_loop fit score sel d (bm0, PInf) ks"
  shows "((\<forall>k \<in> set ks. bic_candidate fit score sel d k = None) \<longrightarrow> r = (bm0, PInf)) \<and>
         ((\<exists>k \<in> set ks. bic_candidate fit score sel d k \<noteq> None) \<longrightarrow>
            (\<exists>k \<in> set ks. \<exists>m b. bic_candidate fit score sel d k = Some (Some m, Fin b) \<and>
               r = (Some m, Fin b) \<and>
               (\<forall>k' \<in> set ks. \<forall>m' b'.
                  bic_candidate fit score sel d k' = Some (m', Fin b') \<longrightarrow> b \<le> b')))"
proof (intro conjI impI)
  assume "\<forall>k \<in> set ks. bic_candidate fit score sel d k = None"
  then show "r = (bm0, PInf)"
    unfolding r_def bic_loop_def by (rule keep_better_loop_all_fail)
next
  assume "\<exists>k \<in> set ks. bic_candidate fit score sel d k \<noteq> None"
  then obtain k0 c0 where k0: "k0 \<in> set ks" "bic_candidate fit score sel d k0 = Some c0"
    by auto
  from bic_candidate_shape [OF k0(2) ne] obtain m0 b0 where "c0 = (Some m0, Fin b0)"
    by auto
  with k0(2) have c0: "bic_candidate fit score sel d k0 = Some (Some m0, Fin b0)"
    by simp
  have "\<exists>j \<in> set ks. bic_candidate fit score sel d j = Some r"
    unfolding r_def bic_loop_def
    by (rule keep_better_loop_improves [where k = k0 and m = "Some m0" and s = "Fin b0"])
       (auto intro: flt_lt_trans simp: flt_lt_irrefl k0(1) c0)
  then obtain j where j: "j \<in> set ks" "bic_candidate fit score sel d j = Some r" by blast
  from bic_candidate_shape [OF j(2) ne] obtain m b where r: "r = (Some m, Fin b)" by auto
  have "\<forall>k \<in> set ks. \<forall>m s. bic_candidate fit score sel d k = Some (m, s) \<longrightarrow>
           \<not> flt_lt s (snd r)"
    unfolding r_def bic_loop_def
    by (rule keep_better_loop_optimal) (auto intro: flt_lt_trans simp: flt_lt_irrefl)
  then have "\<forall>k' \<in> set ks. \<forall>m' b'.
               bic_candidate fit score sel d k' = Some (m', Fin b') \<longrightarrow> b \<le> b'"
    using r by fastforce
  with j r show "\<exists>k \<in> set ks. \<exists>m b. bic_candidate fit score sel d k = Some (Some m, Fin b) \<and>
               r = (Some m, Fin b) \<and>
               (\<forall>k' \<in> set ks. \<forall>m' b'.
                  bic_candidate fit score sel d k' = Some (m', Fin b') \<longrightarrow> b \<le> b')"
    by auto
qed

lemma SelectorBIC_select_unfold:
  "X sel = row0 # rows \<Longrightarrow>
   SelectorBIC_select fit score sel =
     Inr (fst (bic_loop fit score sel (length row0)
                 (fit (n_constant sel) (X sel) (lengths sel), PInf)
                 [min_n_components sel .. max_n_components sel]))"
  by (simp add: SelectorBIC_select_def base_model_def Let_def)

text \<open>
  C1. On a corpus with at least one row: every topology of the range whose fit and
  self-score succeed gets the criterion \<open>-2 logL + p ln N\<close> with
  \<open>p = k k + 2 d k - 1\<close>; the running best starts as the fallback fit with score
  \<open>+inf\<close>, so the fallback is returned when no topology succeeds, and otherwise a
  successful topology of minimal criterion is returned.
\<close>

theorem SelectorBIC_select_minimal:
  assumes "X sel = row0 # rows"
  shows "\<exists>best_model. SelectorBIC_select fit score sel = Inr best_model \<and>
     (\<forall>k \<in> {min_n_components sel .. max_n_components sel}. \<forall>m logL.
        fit k (X sel) (lengths sel) = Some m \<longrightarrow>
        score m (X sel) (lengths sel) = Some logL \<longrightarrow>
        bic_candidate fit score sel (length row0) k =
          Some (Some m, Fin (- 2 * logL + of_int (k * k + 2 * int (length row0) * k - 1)
                                            * ln (real (length (X sel)))))) \<and>
     ((\<forall>k \<in> {min_n_components sel .. max_n_components sel}.
         bic_candidate fit score sel (length row0) k = None) \<longrightarrow>
        best_model = base_model fit sel (n_constant sel)) \<and>
     ((\<exists>k \<in> {min_n_components sel .. max_n_components sel}.
         bic_candidate fit score sel (length row0) k \<noteq> None) \<longrightarrow>
        (\<exists>k \<in> {min_n_components sel .. max_n_components sel}. \<exists>m b.
           bic_candidate fit score sel (length row0) k = Some (Some m, Fin b) \<and>
           best_model = Some m \<and>
           (\<forall>k' \<in> {min_n_components sel .. max_n_components sel}. \<forall>m' b'.
              bic_candidate fit score sel (length row0) k' = Some (m', Fin b') \<longrightarrow>
              b \<le> b')))"
proof -
  have ne: "X sel \<noteq> []" using assms by simp
  let ?ks = "[min_n_components sel .. max_n_components sel]"
  let ?r = "bic_loop fit score sel (length row0)
              (fit (n_constant sel) (X sel) (lengths sel), PInf) ?ks"
  have sel: "SelectorBIC_select fit score sel = Inr (fst ?r)"
    using assms by (rule SelectorBIC_select_unfold)
  have val: "\<forall>k \<in> {min_n_components sel .. max_n_components sel}. \<forall>m logL.
        fit k (X sel) (lengths sel) = Some m \<longrightarrow>
        score m (X sel) (lengths sel) = Some logL \<longrightarrow>
        bic_candidate fit score sel (length row0) k =
          Some (Some m, Fin (- 2 * logL + of_int (k * k + 2 * int (length row0) * k - 1)
                                            * ln (real (length (X sel)))))"
    using ne by (simp add: bic_candidate_value)
  from bic_loop_result [OF ne refl, where fit = fit and score = score and d = "length row0"
      and ?bm0.0 = "fit (n_constant sel) (X sel) (lengths sel)" and ks = ?ks]
  have res: "((\<forall>k \<in> set ?ks. bic_candidate fit score sel (length row0) k = None) \<longrightarrow>
            ?r = (fit (n_constant sel) (X sel) (lengths sel), PInf)) \<and>
         ((\<exists>k \<in> set ?ks. bic_candidate fit score sel (length row0) k \<noteq> None) \<longrightarrow>
            (\<exists>k \<in> set ?ks. \<exists>m b.
               bic_candidate fit score sel (length row0) k = Some (Some m, Fin b) \<and>
               ?r = (Some m, Fin b) \<and>
               (\<forall>k' \<in> set ?ks. \<forall>m' b'.
                  bic_candidate fit score sel (length row0) k' = Some (m', Fin b') \<longrightarrow>
                  b \<le> b')))"
    by simp
  show ?thesis
    apply (rule exI [of _ "fst ?r"])
    apply (intro conjI)
       apply (rule sel)
      apply (rule val)
    using res apply (simp add: base_model_def)
    using res apply (simp only: set_upto) apply (metis fst_conv)
    done
qed


lemmas ex_sel_simps =
  ex_sel_def ex_sel2_def ModelSelector_init_def ex_sequences_def ex_Xlengths_def
  ex_fit_def base_model_def keep_better_def flt_gt_def Let_def

theorem SelectorBIC_select_minimal_witness:
  "X (ex_sel ''C'' 1 2 4) = [5] # [] \<and>
   bic_candidate ex_fit ex_score (ex_sel ''C'' 1 2 4) 1 2 = Some (Some (HMM 2 [[5]] [1]), Fin 6) \<and>
   bic_candidate ex_fit ex_score (ex_sel ''C'' 1 2 4) 1 3 = Some (Some (HMM 3 [[5]] [1]), Fin 4) \<and>
   bic_candidate ex_fit ex_score (ex_sel ''C'' 1 2 4) 1 4 = None \<and>
   base_model ex_fit (ex_sel ''C'' 1 2 4) 1 = Some (HMM 1 [[5]] [1]) \<and>
   SelectorBIC_select ex_fit ex_score (ex_sel ''C'' 1 2 4) = Inr (Some (HMM 3 [[5]] [1]))"
  using SelectorBIC_select_minimal [of "ex_sel ''C'' 1 2 4" "[5]" "[]" ex_fit ex_score]
  by (simp add: ex_sel_simps SelectorBIC_select_def bic_loop_def bic_candidate_def bic_p_def
      np_log_def)

subsection \<open>DIC\<close>

lemma dic_competitors_failure:
  assumes "w \<in> set ws" "w \<noteq> this_word sel"
    and "map_of (hwords sel) w = Some (wx, wl)" "score m wx wl = None"
  shows "dic_competitors score sel m ws acc = None"
  using assms(1)
proof (induction ws arbitrary: acc)
  case Nil
  then show ?case by simp
next
  case (Cons a ws)
  show ?case
  proof (cases "a = w")
    case True
    then show ?thesis using assms(2-) by simp
  next
    case False
    with Cons.prems have "w \<in> set ws" by simp
    then have "dic_competitors score sel m ws acc' = None" for acc'
      by (rule Cons.IH)
    then show ?thesis by (simp split: option.splits)
  qed
qed

text \<open>
  C2, as the code has it. The competing-label scores are taken inside the candidate's
  single \<open>try\<close> block: when the score of one competing label raises, the whole candidate
  is dropped, the running best stays as it was, and the loop goes on with the remaining
  topologies.
\<close>

theorem dic_competitor_failure_drops_candidate:
  assumes "fit k (X sel) (lengths sel) = Some m"
    and "w \<in> set (map fst (words sel))" "w \<noteq> this_word sel"
    and "map_of (hwords sel) w = Some (wx, wl)" "score m wx wl = None"
  shows "dic_candidate fit score sel k = None \<and>
         dic_loop fit score sel best (ks1 @ k # ks2) = dic_loop fit score sel best (ks1 @ ks2)"
proof -
  have "dic_competitors score sel m (map fst (words sel)) [] = None"
    using assms(2-) by (rule dic_competitors_failure)
  with assms(1) have none: "dic_candidate fit score sel k = None"
    by (simp add: dic_candidate_def split: option.splits)
  then have "dic_loop fit score sel best (ks1 @ k # ks2) = dic_loop fit score sel best (ks1 @ ks2)"
    unfolding dic_loop_def by (rule keep_better_loop_skip)
  with none show ?thesis by simp
qed

theorem dic_competitor_failure_drops_candidate_witness:
  "ex_fit 2 (X (ex_sel ''A'' 3 2 3)) (lengths (ex_sel ''A'' 3 2 3))
     = Some (HMM 2 [[2], [2], [3], [2]] [1, 2, 1]) \<and>
   ''B'' \<in> set (map fst (words (ex_sel ''A'' 3 2 3))) \<and>
   ''B'' \<noteq> this_word (ex_sel ''A'' 3 2 3) \<and>
   map_of (hwords (ex_sel ''A'' 3 2 3)) ''B'' = Some ([[1, 1]], [1]) \<and>
   ex_score (HMM 2 [[2], [2], [3], [2]] [1, 2, 1]) [[1, 1]] [1] = None \<and>
   dic_candidate ex_fit ex_score (ex_sel ''A'' 3 2 3) 2 = None \<and>
   dic_loop ex_fit ex_score (ex_sel ''A'' 3 2 3) (None, NInf) ([] @ 2 # [3]) =
   dic_loop ex_fit ex_score (ex_sel ''A'' 3 2 3) (None, NInf) ([] @ [3])"
  using dic_competitor_failure_drops_candidate
    [of ex_fit 2 "ex_sel ''A'' 3 2 3" "HMM 2 [[2], [2], [3], [2]] [1, 2, 1]" "''B''"
        "[[1, 1]]" "[1]" ex_score "(None, NInf)" "[]" "[3]"]
  by (simp add: ex_sel_simps)

text \<open>
  The claim as stated fails: label \<open>''B''\<close> has frames of another width, so the model
  fitted for \<open>''A''\<close> cannot score it. Leaving \<open>''B''\<close> out would give topology 2 the
  criterion \<open>-1 - (-3) = 2\<close> and make it the winner; the code drops topology 2 and
  returns the fallback fit with three states.
\<close>

theorem dic_competitor_failure_counterexample:
  "ex_score (HMM 2 [[2], [2], [3], [2]] [1, 2, 1]) [[1, 1]] [1] = None \<and>
   dic_candidate_excluding ex_fit ex_score (ex_sel ''A'' 3 2 2) 2
     = Some (Some (HMM 2 [[2], [2], [3], [2]] [1, 2, 1]), Fin 2) \<and>
   dic_candidate ex_fit ex_score (ex_sel ''A'' 3 2 2) 2 = None \<and>
   SelectorDIC_select ex_fit ex_score (ex_sel ''A'' 3 2 2)
     = Some (HMM 3 [[2], [2], [3], [2]] [1, 2, 1])"
  by (simp add: ex_sel_simps SelectorDIC_select_def dic_loop_def dic_candidate_def
      dic_candidate_excluding_def flt_sub_def np_average_def)

subsection \<open>The folds of \<open>KFold\<close>\<close>

lemma length_fold_sizes: "length (fold_sizes n k) = k"
  by (simp add: fold_sizes_def)

lemma sum_list_indicator: "sum_list (map (\<lambda>i. if i < r then 1 else 0) [0..<k]) = min r k"
  by (induction k) auto

lemma sum_list_fold_sizes:
  assumes "0 < k"
  shows "sum_list (fold_sizes n k) = n"
proof -
  have "sum_list (fold_sizes n k) =
        k * (n div k) + sum_list (map (\<lambda>i. if i < n mod k then 1 else 0) [0..<k])"
    by (simp add: fold_sizes_def sum_list_addf sum_list_triv)
  also have "\<dots> = k * (n div k) + n mod k"
    using assms by (simp add: sum_list_indicator)
  finally show ?thesis by simp
qed

lemma fold_sizes_positive:
  assumes "0 < k" "k \<le> n" "s \<in> set (fold_sizes n k)"
  shows "0 < s"
proof -
  have "0 < n div k" using assms(1,2) by (simp add: div_greater_zero_iff)
  with assms(3) show ?thesis by (auto simp: fold_sizes_def)
qed

lemma length_kfold_iter: "length (kfold_iter n cur sizes) = length sizes"
  by (induction sizes arbitrary: cur) (simp_all add: Let_def)

lemma kfold_iter_tests:
  "concat (map snd (kfold_iter n cur sizes)) = [cur..<cur + sum_list sizes]"
proof (induction sizes arbitrary: cur)
  case Nil
  then show ?case by simp
next
  case (Cons s sizes)
  have "[cur..<cur + s] @ [cur + s..<cur + s + sum_list sizes] = [cur..<cur + s + sum_list sizes]"
    by (metis le_add1 upt_add_eq_append)
  with Cons show ?case by (simp add: Let_def add.assoc)
qed

lemma kfold_iter_fold:
  assumes "(train_id, test_id) \<in> set (kfold_iter n cur sizes)"
  shows "\<exists>c s. s \<in> set sizes \<and> test_id = [c..<c + s] \<and>
           train_id = filter (\<lambda>i. i \<notin> set test_id) [0..<n]"
  using assms
proof (induction sizes arbitrary: cur)
  case Nil
  then show ?case by simp
next
  case (Cons s sizes)
  from Cons.prems
  have "(test_id = [cur..<cur + s] \<and> train_id = filter (\<lambda>i. i \<notin> set test_id) [0..<n]) \<or>
        (train_id, test_id) \<in> set (kfold_iter n (cur + s) sizes)"
    by (auto simp: Let_def)
  then show ?case
  proof
    assume "test_id = [cur..<cur + s] \<and> train_id = filter (\<lambda>i. i \<notin> set test_id) [0..<n]"
    then show ?thesis by (intro exI [of _ cur] exI [of _ s]) simp
  next
    assume "(train_id, test_id) \<in> set (kfold_iter n (cur + s) sizes)"
    from Cons.IH [OF this] show ?thesis by auto
  qed
qed

lemma cv_splits_Inr:
  assumes "cv_splits sel = Inr folds"
  shows "2 \<le> min 3 (length (lengths sel)) \<and>
         min 3 (length (lengths sel)) \<le> length (sequences sel) \<and>
         folds = kfold_iter (length (sequences sel)) 0
                   (fold_sizes (length (sequences sel)) (min 3 (length (lengths sel))))"
  using assms
  by (auto simp: cv_splits_def KFold_def KFold_split_def split: if_splits)

lemma cv_splits_folds:
  assumes "cv_splits sel = Inr folds"
  shows "length folds = min 3 (length (lengths sel))"
    and "folds \<noteq> []"
    and "concat (map snd folds) = [0..<length (sequences sel)]"
    and "\<And>train_id test_id. (train_id, test_id) \<in> set folds \<Longrightarrow>
           test_id \<noteq> [] \<and>
           train_id = filter (\<lambda>i. i \<notin> set test_id) [0..<length (sequences sel)]"
proof -
  let ?n = "length (sequences sel)" and ?k = "min 3 (length (lengths sel))"
  from cv_splits_Inr [OF assms]
  have k: "2 \<le> ?k" "?k \<le> ?n" and f: "folds = kfold_iter ?n 0 (fold_sizes ?n ?k)"
    by auto
  show len: "length folds = ?k"
    by (simp add: f length_kfold_iter length_fold_sizes)
  with k(1) show "folds \<noteq> []" by auto
  have "0 < ?k" using k(1) by linarith
  then show "concat (map snd folds) = [0..<?n]"
    by (simp add: f kfold_iter_tests sum_list_fold_sizes)
  fix train_id test_id
  assume "(train_id, test_id) \<in> set folds"
  with f kfold_iter_fold obtain c s where
    s: "s \<in> set (fold_sizes ?n ?k)" and te: "test_id = [c..<c + s]" and
    tr: "train_id = filter (\<lambda>i. i \<notin> set test_id) [0..<?n]"
    by blast
  have "0 < s" using \<open>0 < ?k\<close> k(2) s by (rule fold_sizes_positive)
  with te tr show "test_id \<noteq> [] \<and> train_id = filter (\<lambda>i. i \<notin> set test_id) [0..<?n]"
    by simp
qed

lemma cv_splits_ok:
  assumes "length (lengths sel) = length (sequences sel)" "2 \<le> length (sequences sel)"
  shows "\<exists>folds. cv_splits sel = Inr folds"
  using assms by (simp add: cv_splits_def KFold_def KFold_split_def)

text \<open>
  C4, as the code has it. For every corpus with at least two sequences (and one length
  per sequence), the sequences are split into exactly \<open>min(3, number of sequences)\<close>
  folds of whole-sequence indices: the held-out index lists are non-empty and together
  enumerate every sequence once, and each training list is the rest of the indices. The
  split does not depend on the candidate topology.
\<close>

theorem cv_splits_fold_count:
  assumes "length (lengths sel) = length (sequences sel)" "2 \<le> length (sequences sel)"
  shows "\<exists>folds. cv_splits sel = Inr folds \<and>
           length folds = min 3 (length (sequences sel)) \<and>
           concat (map snd folds) = [0..<length (sequences sel)] \<and>
           (\<forall>fd \<in> set folds. snd fd \<noteq> [] \<and>
              fst fd = filter (\<lambda>i. i \<notin> set (snd fd)) [0..<length (sequences sel)])"
proof -
  from cv_splits_ok [OF assms] obtain folds where f: "cv_splits sel = Inr folds" by blast
  have "\<forall>fd \<in> set folds. snd fd \<noteq> [] \<and>
          fst fd = filter (\<lambda>i. i \<notin> set (snd fd)) [0..<length (sequences sel)]"
    using cv_splits_folds(4) [OF f] by (metis prod.collapse)
  with f cv_splits_folds(1,3) [OF f] assms(1) show ?thesis by simp
qed


lemmas cv_splits_simps =
  cv_splits_def KFold_def KFold_split_def fold_sizes_def Let_def

theorem cv_splits_fold_count_witness:
  "length (lengths ex_sel_pair) = length (sequences ex_sel_pair) \<and>
   2 \<le> length (sequences ex_sel_pair) \<and>
   cv_splits ex_sel_pair = Inr [([1], [0]), ([0], [1])] \<and>
   cv_splits (ex_sel ''A'' 3 2 3) = Inr [([1, 2], [0]), ([0, 2], [1]), ([0, 1], [2])]"
  using cv_splits_fold_count [of ex_sel_pair]
  by (simp add: ex_sel_pair_def ex_sel_simps cv_splits_simps upt_rec)

text \<open>
  The claim as stated fails on a corpus with a single sequence: \<open>min(3, 1) = 1\<close> and
  \<open>KFold(n_splits=1)\<close> raises \<open>ValueError\<close>, so there is no fold at all and every
  candidate topology is skipped.
\<close>

theorem cv_splits_fold_count_counterexample:
  "length (sequences (ex_sel ''C'' 3 2 3)) = 1 \<and>
   length (lengths (ex_sel ''C'' 3 2 3)) = 1 \<and>
   cv_splits (ex_sel ''C'' 3 2 3) = Inl ValueError \<and>
   \<not> (\<exists>folds. cv_splits (ex_sel ''C'' 3 2 3) = Inr folds \<and>
         length folds = min 3 (length (sequences (ex_sel ''C'' 3 2 3)))) \<and>
   cv_candidate ex_fit ex_score (ex_sel ''C'' 3 2 3) 2 = None"
  by (simp add: ex_sel_simps cv_splits_simps cv_candidate_def)

subsection \<open>A cross-validated candidate\<close>

lemma cv_folds_those:
  "cv_folds fit score sel k folds (cm, logL) =
     (case those (map (cv_fold fit score sel k) folds) of
        None \<Rightarrow> None
      | Some rs \<Rightarrow> Some (if rs = [] then cm else Some (fst (last rs)), logL @ map snd rs))"
proof (induction folds arbitrary: cm logL)
  case Nil
  then show ?case by simp
next
  case (Cons f folds)
  show ?case
  proof (cases "cv_fold fit score sel k f")
    case None
    then show ?thesis by simp
  next
    case (Some r)
    obtain m v where r: "r = (m, v)" by (cases r)
    show ?thesis
      using Some r Cons.IH [of "Some m" "logL @ [v]"]
      by (simp split: option.splits)
  qed
qed

lemma those_map_Some:
  assumes "those (map f xs) = Some rs"
  shows "length rs = length xs \<and> (\<forall>x \<in> set xs. f x \<noteq> None) \<and>
         (xs \<noteq> [] \<longrightarrow> f (last xs) = Some (last rs))"
  using assms
proof (induction xs arbitrary: rs)
  case Nil
  then show ?case by simp
next
  case (Cons x xs)
  from Cons.prems obtain y ys where
    y: "f x = Some y" and ys: "those (map f xs) = Some ys" and rs: "rs = y # ys"
    by (auto split: option.splits)
  from Cons.IH [OF ys] y rs show ?case
    by (cases xs) auto
qed


lemma cv_candidate_those:
  "cv_candidate fit score sel k =
     (case cv_splits sel of
        Inl e \<Rightarrow> None
      | Inr folds \<Rightarrow>
          (case those (map (cv_fold fit score sel k) folds) of
             None \<Rightarrow> None
           | Some rs \<Rightarrow>
               Some (if rs = [] then None else Some (fst (last rs)),
                     np_average (map snd rs))))"
  by (simp add: cv_candidate_def cv_folds_those split: sum.splits option.splits)


lemma cv_candidate_Some:
  assumes "cv_candidate fit score sel k = Some c"
  shows "\<exists>folds rs. cv_splits sel = Inr folds \<and> folds \<noteq> [] \<and>
           those (map (cv_fold fit score sel k) folds) = Some rs \<and> rs \<noteq> [] \<and>
           cv_fold fit score sel k (last folds) = Some (last rs) \<and>
           c = (Some (fst (last rs)), Fin (sum_list (map snd rs) / real (length rs)))"
proof -
  from assms obtain folds rs where
    f: "cv_splits sel = Inr folds" and
    t: "those (map (cv_fold fit score sel k) folds) = Some rs" and
    c: "c = (if rs = [] then None else Some (fst (last rs)), np_average (map snd rs))"
    by (auto simp: cv_candidate_those split: sum.splits option.splits)
  have ne: "folds \<noteq> []" using f by (rule cv_splits_folds(2))
  from those_map_Some [OF t] ne have "rs \<noteq> []"
    and "cv_fold fit score sel k (last folds) = Some (last rs)"
    by auto
  with f t c ne show ?thesis by (simp add: np_average_def)
qed

lemma cv_loop_result:
  assumes r_def: "r = cv_loop fit score sel (bm0, NInf) ks"
  shows "((\<forall>k \<in> set ks. cv_candidate fit score sel k = None) \<longrightarrow> r = (bm0, NInf)) \<and>
         ((\<exists>k \<in> set ks. cv_candidate fit score sel k \<noteq> None) \<longrightarrow>
            (\<exists>k \<in> set ks. \<exists>m s. cv_candidate fit score sel k = Some (Some m, Fin s) \<and>
               r = (Some m, Fin s) \<and>
               (\<forall>k' \<in> set ks. \<forall>m' s'.
                  cv_candidate fit score sel k' = Some (m', Fin s') \<longrightarrow> s' \<le> s)))"
proof (intro conjI impI)
  assume "\<forall>k \<in> set ks. cv_candidate fit score sel k = None"
  then show "r = (bm0, NInf)"
    unfolding r_def cv_loop_def by (rule keep_better_loop_all_fail)
next
  assume "\<exists>k \<in> set ks. cv_candidate fit score sel k \<noteq> None"
  then obtain k0 c0 where k0: "k0 \<in> set ks" "cv_candidate fit score sel k0 = Some c0"
    by auto
  from cv_candidate_Some [OF k0(2)] obtain m0 s0 where "c0 = (Some m0, Fin s0)"
    by auto
  with k0(2) have c0: "cv_candidate fit score sel k0 = Some (Some m0, Fin s0)"
    by simp
  have "\<exists>j \<in> set ks. cv_candidate fit score sel j = Some r"
    unfolding r_def cv_loop_def
    by (rule keep_better_loop_improves [where k = k0 and m = "Some m0" and s = "Fin s0"])
       (auto intro: flt_gt_trans simp: flt_gt_irrefl k0(1) c0, simp add: flt_gt_def)
  then obtain j where j: "j \<in> set ks" "cv_candidate fit score sel j = Some r" by blast
  from cv_candidate_Some [OF j(2)] obtain m s where r: "r = (Some m, Fin s)" by auto
  have "\<forall>k \<in> set ks. \<forall>m s. cv_candidate fit score sel k = Some (m, s) \<longrightarrow>
           \<not> flt_gt s (snd r)"
    unfolding r_def cv_loop_def
    by (rule keep_better_loop_optimal) (auto intro: flt_gt_trans simp: flt_gt_irrefl)
  then have "\<forall>k' \<in> set ks. \<forall>m' s'.
               cv_candidate fit score sel k' = Some (m', Fin s') \<longrightarrow> s' \<le> s"
    using r by (fastforce simp: flt_gt_def)
  with j r show "\<exists>k \<in> set ks. \<exists>m s. cv_candidate fit score sel k = Some (Some m, Fin s) \<and>
               r = (Some m, Fin s) \<and>
               (\<forall>k' \<in> set ks. \<forall>m' s'.
                  cv_candidate fit score sel k' = Some (m', Fin s') \<longrightarrow> s' \<le> s)"
    by auto
qed



lemmas cv_eval_simps =
  cv_candidate_def cv_fold_def combine_sequences_def cv_loop_def SelectorCV_select_def
  np_average_def


lemma cv_fold_Some:
  assumes "cv_fold fit score sel k (train_id, test_id) = Some (m, v)"
  shows "\<exists>train_n train_len. combine_sequences train_id (sequences sel) = Inr (train_n, train_len) \<and>
           fit k train_n train_len = Some m"
  using assms by (auto simp: cv_fold_def split: sum.splits option.splits)

text \<open>
  C10. When the loop of \<open>SelectorCV.select\<close> has replaced its initial best (the best score
  is no longer \<open>-inf\<close>), the model returned is the one fitted, for the winning topology,
  on the training sequences of the last fold: the held-out sequences of that fold, of
  which there is at least one, are not among its training data. No fit on the whole
  corpus is made for the winner.
\<close>

theorem cv_winner_is_last_fold_model:
  assumes "cv_loop fit score sel (base_model fit sel (n_constant sel), NInf)
             [min_n_components sel .. max_n_components sel] = (bm, bs)"
    and "bs \<noteq> NInf"
  shows "SelectorCV_select fit score sel = bm \<and>
         (\<exists>k \<in> {min_n_components sel .. max_n_components sel}.
            \<exists>folds train_id test_id train_n train_len m.
              cv_splits sel = Inr folds \<and> folds \<noteq> [] \<and> last folds = (train_id, test_id) \<and>
              combine_sequences train_id (sequences sel) = Inr (train_n, train_len) \<and>
              fit k train_n train_len = Some m \<and> bm = Some m \<and>
              test_id \<noteq> [] \<and> set train_id \<inter> set test_id = {})"
proof -
  let ?ks = "[min_n_components sel .. max_n_components sel]"
  have sel: "SelectorCV_select fit score sel = bm"
    using assms(1) by (simp add: SelectorCV_select_def Let_def)
  from cv_loop_result [OF assms(1) [symmetric]] assms(2)
  obtain k m s where
    k: "k \<in> set ?ks" and c: "cv_candidate fit score sel k = Some (Some m, Fin s)" and
    r: "(bm, bs) = (Some m, Fin s)"
    by fastforce
  from cv_candidate_Some [OF c] obtain folds rs where
    f: "cv_splits sel = Inr folds" "folds \<noteq> []" and
    l: "cv_fold fit score sel k (last folds) = Some (last rs)" and
    m: "m = fst (last rs)"
    by auto
  obtain train_id test_id where lf: "last folds = (train_id, test_id)"
    by (cases "last folds")
  from l lf m have "cv_fold fit score sel k (train_id, test_id) = Some (m, snd (last rs))"
    by simp
  from cv_fold_Some [OF this] obtain train_n train_len where
    t: "combine_sequences train_id (sequences sel) = Inr (train_n, train_len)"
       "fit k train_n train_len = Some m"
    by blast
  have "(train_id, test_id) \<in> set folds"
    using f(2) lf by (metis last_in_set)
  from cv_splits_folds(4) [OF f(1) this]
  have d: "test_id \<noteq> []" "set train_id \<inter> set test_id = {}" by auto
  from k have "k \<in> {min_n_components sel .. max_n_components sel}" by simp
  with sel f lf t r d show ?thesis by blast
qed

theorem cv_winner_is_last_fold_model_witness:
  "cv_loop ex_fit ex_score (ex_sel ''A'' 3 2 3)
     (base_model ex_fit (ex_sel ''A'' 3 2 3) (n_constant (ex_sel ''A'' 3 2 3)), NInf)
     [min_n_components (ex_sel ''A'' 3 2 3) .. max_n_components (ex_sel ''A'' 3 2 3)]
     = (Some (HMM 2 [[2], [2], [3]] [1, 2]), Fin (- (1 / 3))) \<and>
   Fin (- (1 / 3)) \<noteq> NInf \<and>
   cv_splits (ex_sel ''A'' 3 2 3) = Inr [([1, 2], [0]), ([0, 2], [1]), ([0, 1], [2])] \<and>
   combine_sequences [0, 1] (sequences (ex_sel ''A'' 3 2 3)) = Inr ([[2], [2], [3]], [1, 2]) \<and>
   SelectorCV_select ex_fit ex_score (ex_sel ''A'' 3 2 3) = Some (HMM 2 [[2], [2], [3]] [1, 2]) \<and>
   ex_fit 2 (X (ex_sel ''A'' 3 2 3)) (lengths (ex_sel ''A'' 3 2 3))
     = Some (HMM 2 [[2], [2], [3], [2]] [1, 2, 1])"
  using cv_winner_is_last_fold_model
    [of ex_fit ex_score "ex_sel ''A'' 3 2 3" "Some (HMM 2 [[2], [2], [3]] [1, 2])"
        "Fin (- (1 / 3))"]
  by (simp add: ex_sel_simps cv_splits_simps cv_eval_simps upt_rec)

subsection \<open>Range and fallback of the three criterion-based selectors\<close>

lemma keep_better_loop_single:
  assumes irr: "\<And>a. \<not> better a a"
    and tr: "\<And>a b c. better a b \<Longrightarrow> better b c \<Longrightarrow> better a c"
    and k: "k \<in> set ks" "ev k = Some (m, s)" "better s (snd best)"
    and others: "\<forall>j \<in> set ks. j \<noteq> k \<longrightarrow> ev j = None"
  shows "foldl (\<lambda>b k. keep_better better b (ev k)) best ks = (m, s)"
proof -
  have "\<exists>j \<in> set ks. ev j = Some (foldl (\<lambda>b k. keep_better better b (ev k)) best ks)"
    using irr tr k by (rule keep_better_loop_improves)
  then obtain j where
    j: "j \<in> set ks" "ev j = Some (foldl (\<lambda>b k. keep_better better b (ev k)) best ks)"
    by blast
  with others have "j = k" by force
  with j(2) k(2) show ?thesis by simp
qed

lemma bic_loop_single:
  assumes "k \<in> set ks" "bic_candidate fit score sel d k = Some (Some m, Fin b)"
    and "\<forall>j \<in> set ks. j \<noteq> k \<longrightarrow> bic_candidate fit score sel d j = None"
  shows "bic_loop fit score sel d (bm0, PInf) ks = (Some m, Fin b)"
  unfolding bic_loop_def
  by (rule keep_better_loop_single [where k = k])
     (use assms in \<open>auto intro: flt_lt_trans simp: flt_lt_irrefl\<close>)

lemma dic_loop_single:
  assumes "k \<in> set ks" "dic_candidate fit score sel k = Some (Some m, Fin s)"
    and "\<forall>j \<in> set ks. j \<noteq> k \<longrightarrow> dic_candidate fit score sel j = None"
  shows "dic_loop fit score sel (bm0, NInf) ks = (Some m, Fin s)"
  unfolding dic_loop_def
  by (rule keep_better_loop_single [where k = k])
     (use assms in \<open>auto intro: flt_gt_trans simp: flt_gt_irrefl\<close>, simp add: flt_gt_def)

lemma cv_loop_single:
  assumes "k \<in> set ks" "cv_candidate fit score sel k = Some (Some m, Fin s)"
    and "\<forall>j \<in> set ks. j \<noteq> k \<longrightarrow> cv_candidate fit score sel j = None"
  shows "cv_loop fit score sel (bm0, NInf) ks = (Some m, Fin s)"
  unfolding cv_loop_def
  by (rule keep_better_loop_single [where k = k])
     (use assms in \<open>auto intro: flt_gt_trans simp: flt_gt_irrefl\<close>, simp add: flt_gt_def)

lemma dic_candidate_fit_or_score_failure:
  "\<forall>m. fit k (X sel) (lengths sel) = Some m \<longrightarrow> score m (X sel) (lengths sel) = None \<Longrightarrow>
   dic_candidate fit score sel k = None"
  by (auto simp: dic_candidate_def split: option.splits)

text \<open>
  What the three loops return: a topology of the range that is the only one to be scored
  is the one returned, wherever in the range it lies, and when every topology of the
  range fails the result is the fit at \<open>n_constant\<close> on the label's corpus. (BIC reads
  the first row of the matrix, so its part is about a corpus with at least one row.)
\<close>

lemma selectors_results:
  "(\<forall>row0 rows. X sel = row0 # rows \<longrightarrow>
      ((\<forall>k \<in> {min_n_components sel .. max_n_components sel}.
          bic_candidate fit score sel (length row0) k = None) \<longrightarrow>
       SelectorBIC_select fit score sel = Inr (fit (n_constant sel) (X sel) (lengths sel))) \<and>
      (\<forall>k \<in> {min_n_components sel .. max_n_components sel}. \<forall>m b.
          bic_candidate fit score sel (length row0) k = Some (Some m, Fin b) \<longrightarrow>
          (\<forall>j \<in> {min_n_components sel .. max_n_components sel}.
              j \<noteq> k \<longrightarrow> bic_candidate fit score sel (length row0) j = None) \<longrightarrow>
          SelectorBIC_select fit score sel = Inr (Some m))) \<and>
   ((\<forall>k \<in> {min_n_components sel .. max_n_components sel}.
        dic_candidate fit score sel k = None) \<longrightarrow>
     SelectorDIC_select fit score sel = fit (n_constant sel) (X sel) (lengths sel)) \<and>
   (\<forall>k \<in> {min_n_components sel .. max_n_components sel}. \<forall>m s.
       dic_candidate fit score sel k = Some (Some m, Fin s) \<longrightarrow>
       (\<forall>j \<in> {min_n_components sel .. max_n_components sel}.
           j \<noteq> k \<longrightarrow> dic_candidate fit score sel j = None) \<longrightarrow>
       SelectorDIC_select fit score sel = Some m) \<and>
   ((\<forall>k \<in> {min_n_components sel .. max_n_components sel}.
        cv_candidate fit score sel k = None) \<longrightarrow>
     SelectorCV_select fit score sel = fit (n_constant sel) (X sel) (lengths sel)) \<and>
   (\<forall>k \<in> {min_n_components sel .. max_n_components sel}. \<forall>m s.
       cv_candidate fit score sel k = Some (Some m, Fin s) \<longrightarrow>
       (\<forall>j \<in> {min_n_components sel .. max_n_components sel}.
           j \<noteq> k \<longrightarrow> cv_candidate fit score sel j = None) \<longrightarrow>
       SelectorCV_select fit score sel = Some m) \<and>
   (\<forall>k d. (\<forall>m. fit k (X sel) (lengths sel) = Some m \<longrightarrow>
                 score m (X sel) (lengths sel) = None) \<longrightarrow>
       bic_candidate fit score sel d k = None \<and> dic_candidate fit score sel k = None)"
proof -
  let ?ks = "[min_n_components sel .. max_n_components sel]"
  let ?fb = "fit (n_constant sel) (X sel) (lengths sel)"
  have bic: "((\<forall>k \<in> set ?ks. bic_candidate fit score sel (length row0) k = None) \<longrightarrow>
       SelectorBIC_select fit score sel = Inr ?fb) \<and>
      (\<forall>k \<in> set ?ks. \<forall>m b.
          bic_candidate fit score sel (length row0) k = Some (Some m, Fin b) \<longrightarrow>
          (\<forall>j \<in> set ?ks. j \<noteq> k \<longrightarrow> bic_candidate fit score sel (length row0) j = None) \<longrightarrow>
          SelectorBIC_select fit score sel = Inr (Some m))"
    if x: "X sel = row0 # rows" for row0 rows
  proof (intro conjI impI ballI allI)
    assume "\<forall>k \<in> set ?ks. bic_candidate fit score sel (length row0) k = None"
    then have "bic_loop fit score sel (length row0) (?fb, PInf) ?ks = (?fb, PInf)"
      unfolding bic_loop_def by (rule keep_better_loop_all_fail)
    then show "SelectorBIC_select fit score sel = Inr ?fb"
      by (simp add: SelectorBIC_select_unfold [OF x])
  next
    fix k m b
    assume "k \<in> set ?ks" "bic_candidate fit score sel (length row0) k = Some (Some m, Fin b)"
      "\<forall>j \<in> set ?ks. j \<noteq> k \<longrightarrow> bic_candidate fit score sel (length row0) j = None"
    then have "bic_loop fit score sel (length row0) (?fb, PInf) ?ks = (Some m, Fin b)"
      by (rule bic_loop_single)
    then show "SelectorBIC_select fit score sel = Inr (Some m)"
      by (simp add: SelectorBIC_select_unfold [OF x])
  qed
  have dic1: "SelectorDIC_select fit score sel = ?fb"
    if "\<forall>k \<in> set ?ks. dic_candidate fit score sel k = None"
  proof -
    from that have "dic_loop fit score sel (?fb, NInf) ?ks = (?fb, NInf)"
      unfolding dic_loop_def by (rule keep_better_loop_all_fail)
    then show ?thesis by (simp add: SelectorDIC_select_def base_model_def Let_def)
  qed
  have dic2: "SelectorDIC_select fit score sel = Some m"
    if "k \<in> set ?ks" "dic_candidate fit score sel k = Some (Some m, Fin s)"
      "\<forall>j \<in> set ?ks. j \<noteq> k \<longrightarrow> dic_candidate fit score sel j = None" for k m s
  proof -
    from that have "dic_loop fit score sel (?fb, NInf) ?ks = (Some m, Fin s)"
      by (rule dic_loop_single)
    then show ?thesis by (simp add: SelectorDIC_select_def base_model_def Let_def)
  qed
  have cv1: "SelectorCV_select fit score sel = ?fb"
    if "\<forall>k \<in> set ?ks. cv_candidate fit score sel k = None"
  proof -
    from that have "cv_loop fit score sel (?fb, NInf) ?ks = (?fb, NInf)"
      unfolding cv_loop_def by (rule keep_better_loop_all_fail)
    then show ?thesis by (simp add: SelectorCV_select_def base_model_def Let_def)
  qed
  have cv2: "SelectorCV_select fit score sel = Some m"
    if "k \<in> set ?ks" "cv_candidate fit score sel k = Some (Some m, Fin s)"
      "\<forall>j \<in> set ?ks. j \<noteq> k \<longrightarrow> cv_candidate fit score sel j = None" for k m s
  proof -
    from that have "cv_loop fit score sel (?fb, NInf) ?ks = (Some m, Fin s)"
      by (rule cv_loop_single)
    then show ?thesis by (simp add: SelectorCV_select_def base_model_def Let_def)
  qed
  have fail: "bic_candidate fit score sel d k = None \<and> dic_candidate fit score sel k = None"
    if "\<forall>m. fit k (X sel) (lengths sel) = Some m \<longrightarrow> score m (X sel) (lengths sel) = None"
    for k d
    using that by (simp add: bic_candidate_None dic_candidate_fit_or_score_failure)
  note bic' = bic [unfolded set_upto] and dic1' = dic1 [unfolded set_upto]
    and dic2' = dic2 [unfolded set_upto] and cv1' = cv1 [unfolded set_upto]
    and cv2' = cv2 [unfolded set_upto]
  show ?thesis
  proof (intro conjI)
    show "\<forall>row0 rows. X sel = row0 # rows \<longrightarrow>
      ((\<forall>k \<in> {min_n_components sel .. max_n_components sel}.
          bic_candidate fit score sel (length row0) k = None) \<longrightarrow>
       SelectorBIC_select fit score sel = Inr (fit (n_constant sel) (X sel) (lengths sel))) \<and>
      (\<forall>k \<in> {min_n_components sel .. max_n_components sel}. \<forall>m b.
          bic_candidate fit score sel (length row0) k = Some (Some m, Fin b) \<longrightarrow>
          (\<forall>j \<in> {min_n_components sel .. max_n_components sel}.
              j \<noteq> k \<longrightarrow> bic_candidate fit score sel (length row0) j = None) \<longrightarrow>
          SelectorBIC_select fit score sel = Inr (Some m))"
      using bic' by blast
  qed (use dic1' dic2' cv1' cv2' fail in blast)+
qed

subsection \<open>The fits attempted by the three criterion-based selectors\<close>


























end
